theory Spec2Isabelle
  imports Main "HOL-Library.Word" "HOL-Library.Log_Nat"
begin

section \<open>gowebp: the conversion pipeline and the worker pool\<close>

text \<open>
  \<^verbatim>\<open>src/main.go\<close> holds two versions of the program one after the other. The
  development follows the second, current one (lines 229 to 544, with \<^verbatim>\<open>-prepend\<close>,
  \<^verbatim>\<open>-append\<close>, \<^verbatim>\<open>-min-size\<close> and \<^verbatim>\<open>-dry-run\<close>); line numbers are those of that file.
  The program's effects are made explicit: the operating system is a record that
  \<^verbatim>\<open>execute\<close> reads and updates, every call that leaves the process is appended to a
  trace, a panic is a value, and what is written to a job's result channel is a list of
  channel events. Log output is not modelled: no decision of the program depends on it.
  \<^verbatim>\<open>uint\<close> is taken as 64 bits wide.
\<close>

subsection \<open>Paths: the functions of \<^verbatim>\<open>path/filepath\<close> used by the pipeline (Unix)\<close>

text \<open>On Unix the separator is the slash and there are no volume names.\<close>

definition Separator :: char where
  "Separator = CHR ''/''"

definition IsAbs :: "string \<Rightarrow> bool" where
  "IsAbs path = (case path of [] \<Rightarrow> False | c # _ \<Rightarrow> c = Separator)"

text \<open>\<^verbatim>\<open>strings.Split(path, "/")\<close>: the elements between separators, empty ones included.\<close>

fun split_path :: "string \<Rightarrow> string list" where
  "split_path [] = [[]]"
| "split_path (c # cs) =
     (if c = Separator then [] # split_path cs
      else (case split_path cs of e # es \<Rightarrow> (c # e) # es | [] \<Rightarrow> [[c]]))"

fun join_path :: "string list \<Rightarrow> string" where
  "join_path [] = []"
| "join_path [e] = e"
| "join_path (e # es) = e @ Separator # join_path es"

text \<open>
  \<^verbatim>\<open>Clean\<close> reads the path element by element and keeps the elements written so far;
  \<open>clean_elems\<close> holds them in reverse. An empty element and \<^verbatim>\<open>.\<close> are dropped;
  \<^verbatim>\<open>..\<close> removes the last real element when there is one, is kept in a path that is
  not rooted, and is dropped at the root.
\<close>

fun clean_elems :: "bool \<Rightarrow> string list \<Rightarrow> string list \<Rightarrow> string list" where
  "clean_elems rooted out [] = rev out"
| "clean_elems rooted out (e # es) =
     (if e = [] \<or> e = ''.'' then clean_elems rooted out es
      else if e = ''..'' then
        (case out of
           t # ts \<Rightarrow>
             (if t \<noteq> ''..'' then clean_elems rooted ts es
              else if \<not> rooted then clean_elems rooted (e # out) es
              else clean_elems rooted out es)
         | [] \<Rightarrow>
             (if \<not> rooted then clean_elems rooted (e # out) es
              else clean_elems rooted out es))
      else clean_elems rooted (e # out) es)"

definition Clean :: "string \<Rightarrow> string" where
  "Clean path =
     (if path = [] then ''.''
      else
        (let rooted = IsAbs path;
             body = join_path (clean_elems rooted [] (split_path path))
         in if rooted then Separator # body
            else if body = [] then ''.'' else body))"

text \<open>\<^verbatim>\<open>Join\<close> of two elements: leading empty elements are skipped, the rest is cleaned.\<close>

definition Join :: "string \<Rightarrow> string \<Rightarrow> string" where
  "Join a b =
     (if a \<noteq> [] then Clean (a @ Separator # b)
      else if b \<noteq> [] then Clean b
      else [])"

text \<open>
  \<^verbatim>\<open>Ext\<close> walks back from the end of the path until a separator and returns the
  suffix that starts at the first dot it meets.
\<close>

fun ext_scan :: "string \<Rightarrow> string \<Rightarrow> string" where
  "ext_scan [] acc = []"
| "ext_scan (c # cs) acc =
     (if c = Separator then []
      else if c = CHR ''.'' then c # acc
      else ext_scan cs (c # acc))"

definition Ext :: "string \<Rightarrow> string" where
  "Ext path = ext_scan (rev path) []"

definition Base :: "string \<Rightarrow> string" where
  "Base path =
     (if path = [] then ''.''
      else
        (let stripped = dropWhile (\<lambda>c. c = Separator) (rev path);
             elem = rev (takeWhile (\<lambda>c. c \<noteq> Separator) stripped)
         in if elem = [] then [Separator] else elem))"

definition Dir :: "string \<Rightarrow> string" where
  "Dir path = Clean (rev (dropWhile (\<lambda>c. c \<noteq> Separator) (rev path)))"

subsection \<open>Errors, the operating system and the encoder\<close>

datatype error =
    GetwdError
  | NotExist string
  | RemoveDenied string
  | EncoderError string
  | SliceBounds

text \<open>
  The part of the operating system the pipeline sees: the size of the file at each path
  (what \<^verbatim>\<open>FileInfo.Size()\<close> returns, an \<^verbatim>\<open>int64\<close>), the paths whose removal the
  system refuses, and what \<^verbatim>\<open>os.Getwd\<close> returns.
\<close>

record os_state =
  files :: "string \<rightharpoonup> 64 word"
  undeletable :: "string \<Rightarrow> bool"
  cwd :: "error + string"

datatype syscall =
    Getwd
  | Stat string
  | Encode "64 word" string string
  | Remove string

record world =
  os :: os_state
  trace :: "syscall list"

definition os_Getwd :: "world \<Rightarrow> (error + string) \<times> world" where
  "os_Getwd w = (cwd (os w), w\<lparr>trace := trace w @ [Getwd]\<rparr>)"

definition os_Stat :: "string \<Rightarrow> world \<Rightarrow> (error + 64 word) \<times> world" where
  "os_Stat file w =
     ((case files (os w) file of None \<Rightarrow> Inl (NotExist file) | Some sz \<Rightarrow> Inr sz),
      w\<lparr>trace := trace w @ [Stat file]\<rparr>)"

definition os_Remove :: "string \<Rightarrow> world \<Rightarrow> error option \<times> world" where
  "os_Remove file w =
     (let w' = w\<lparr>trace := trace w @ [Remove file]\<rparr> in
      case files (os w) file of
        None \<Rightarrow> (Some (NotExist file), w')
      | Some _ \<Rightarrow>
          (if undeletable (os w) file then (Some (RemoveDenied file), w')
           else (None, w'\<lparr>os := (os w)\<lparr>files := (files (os w))(file := None)\<rparr>\<rparr>)))"

text \<open>
  The encoder (\<^verbatim>\<open>webpbin.NewCWebP()...Run()\<close>) is an external program: a parameter
  that takes the quality, the input and output paths and the system's state, and
  returns its error and the state it leaves.
\<close>

type_synonym encoder = "64 word \<Rightarrow> string \<Rightarrow> string \<Rightarrow> os_state \<Rightarrow> error option \<times> os_state"

definition run_CWebP ::
  "encoder \<Rightarrow> 64 word \<Rightarrow> string \<Rightarrow> string \<Rightarrow> world \<Rightarrow> error option \<times> world" where
  "run_CWebP enc q inp outp w =
     (case enc q inp outp (os w) of
        (e, s') \<Rightarrow> (e, \<lparr>os = s', trace = trace w @ [Encode q inp outp]\<rparr>))"

text \<open>\<^verbatim>\<open>filepath.Abs\<close> on Unix.\<close>

definition Abs :: "string \<Rightarrow> world \<Rightarrow> (error + string) \<times> world" where
  "Abs path w =
     (if IsAbs path then (Inr (Clean path), w)
      else
        (case os_Getwd w of
           (Inl e, w') \<Rightarrow> (Inl e, w')
         | (Inr wd, w') \<Rightarrow> (Inr (Join wd path), w')))"

text \<open>\<^verbatim>\<open>mustGetFileSize\<close>: the panic is the left injection.\<close>

definition mustGetFileSize :: "string \<Rightarrow> world \<Rightarrow> (error + 64 word) \<times> world" where
  "mustGetFileSize file w = os_Stat file w"

subsection \<open>\<^verbatim>\<open>float64\<close>: IEEE 754 binary64 with round to nearest, ties to even\<close>

text \<open>
  A \<^verbatim>\<open>float64\<close> is a rational, an infinity or a NaN. The two zeros are one value:
  the pipeline divides and multiplies non-negative numbers only, and its one subtraction
  gives \<open>+0\<close> when it gives zero, so no negative zero arises.
\<close>

datatype float64 = Finite rat | PosInf | NegInf | NaN

text \<open>Round to the nearest integer, a tie to the even one.\<close>

definition rne :: "rat \<Rightarrow> int" where
  "rne x =
     (let f = \<lfloor>x\<rfloor>; d = x - of_int f
      in if d < 1 / 2 then f
         else if 1 / 2 < d then f + 1
         else if even f then f else f + 1)"

text \<open>The binary exponent of a positive rational: \<open>2 powi ilog2 x \<le> x < 2 powi (ilog2 x + 1)\<close>.\<close>

definition ilog2 :: "rat \<Rightarrow> int" where
  "ilog2 x =
     (case quotient_of x of
        (p, q) \<Rightarrow>
          (let e = int (floorlog 2 (nat p)) - int (floorlog 2 (nat q))
           in if 2 powi e \<le> x then e else e - 1))"

text \<open>
  Rounding to binary64: 53 significant bits, so a magnitude with binary exponent \<open>e\<close>
  is rounded to a multiple of \<open>2 powi (e - 52)\<close>; the least exponent is \<open>-1022\<close> (below it
  the spacing stays that of the subnormal numbers); a magnitude that rounds to
  \<open>2 powi 1024\<close> or more overflows to an infinity.
\<close>

definition quantize :: "rat \<Rightarrow> int \<Rightarrow> rat" where
  "quantize a e = of_int (rne (a / 2 powi (e - 52))) * 2 powi (e - 52)"

definition overflow_threshold :: rat where
  "overflow_threshold = 2 powi 1024"

definition round64 :: "rat \<Rightarrow> float64" where
  "round64 x =
     (if x = 0 then Finite 0
      else
        (let y = quantize \<bar>x\<bar> (max (ilog2 \<bar>x\<bar>) (- 1022))
         in if overflow_threshold \<le> y then (if 0 < x then PosInf else NegInf)
            else Finite (if 0 < x then y else - y)))"

text \<open>The conversion \<^verbatim>\<open>float64(n)\<close> of a \<^verbatim>\<open>uint64\<close>.\<close>

definition float64_of_uint64 :: "64 word \<Rightarrow> float64" where
  "float64_of_uint64 n = round64 (of_nat (unat n))"

fun f64_div :: "float64 \<Rightarrow> float64 \<Rightarrow> float64" where
  "f64_div NaN _ = NaN"
| "f64_div _ NaN = NaN"
| "f64_div (Finite a) (Finite b) =
     (if b = 0 then (if a = 0 then NaN else if 0 < a then PosInf else NegInf)
      else round64 (a / b))"
| "f64_div (Finite a) _ = Finite 0"
| "f64_div PosInf (Finite b) = (if 0 \<le> b then PosInf else NegInf)"
| "f64_div NegInf (Finite b) = (if 0 \<le> b then NegInf else PosInf)"
| "f64_div _ _ = NaN"

fun f64_sub :: "float64 \<Rightarrow> float64 \<Rightarrow> float64" where
  "f64_sub NaN _ = NaN"
| "f64_sub _ NaN = NaN"
| "f64_sub (Finite a) (Finite b) = round64 (a - b)"
| "f64_sub (Finite a) PosInf = NegInf"
| "f64_sub (Finite a) NegInf = PosInf"
| "f64_sub PosInf PosInf = NaN"
| "f64_sub PosInf _ = PosInf"
| "f64_sub NegInf NegInf = NaN"
| "f64_sub NegInf _ = NegInf"

fun f64_mul :: "float64 \<Rightarrow> float64 \<Rightarrow> float64" where
  "f64_mul NaN _ = NaN"
| "f64_mul _ NaN = NaN"
| "f64_mul (Finite a) (Finite b) = round64 (a * b)"
| "f64_mul (Finite a) PosInf = (if a = 0 then NaN else if 0 < a then PosInf else NegInf)"
| "f64_mul (Finite a) NegInf = (if a = 0 then NaN else if 0 < a then NegInf else PosInf)"
| "f64_mul PosInf (Finite b) = (if b = 0 then NaN else if 0 < b then PosInf else NegInf)"
| "f64_mul NegInf (Finite b) = (if b = 0 then NaN else if 0 < b then NegInf else PosInf)"
| "f64_mul PosInf PosInf = PosInf"
| "f64_mul PosInf NegInf = NegInf"
| "f64_mul NegInf PosInf = NegInf"
| "f64_mul NegInf NegInf = PosInf"


text \<open>Line 430: \<^verbatim>\<open>(1 - (float64(fSizeOutput) / float64(fSizeTarget))) * 100\<close>.\<close>

definition compression_percent :: "64 word \<Rightarrow> 64 word \<Rightarrow> float64" where
  "compression_percent fSizeOutput fSizeTarget =
     f64_mul
       (f64_sub (Finite 1) (f64_div (float64_of_uint64 fSizeOutput) (float64_of_uint64 fSizeTarget)))
       (Finite 100)"

subsection \<open>Jobs, results and configuration\<close>

record webpJobResult =
  err :: "error option"
  compression :: float64
  exists :: bool
  outputFile :: string

datatype chan_event = Send webpJobResult | Close

text \<open>
  A job's result channel is the list of what has been done to it. \<open>res\<close> is the field
  that the reader started by \<^verbatim>\<open>go j.waitForResult()\<close> fills with what it receives.
\<close>

record job =
  input :: string
  quality :: "64 word"
  res :: "webpJobResult option"
  resCh :: "chan_event list"

definition newJob :: "string \<Rightarrow> 64 word \<Rightarrow> job" where
  "newJob inp q = \<lparr>input = inp, quality = q, res = None, resCh = []\<rparr>"

text \<open>The package-level variables that the flags set.\<close>

record config =
  replace :: bool
  dryRun :: bool
  prependToName :: string
  appendToName :: string
  minFileSize :: "64 word"

subsection \<open>\<^verbatim>\<open>pool.execute\<close>\<close>

text \<open>
  What the body of \<^verbatim>\<open>execute\<close> leaves when control reaches the deferred function:
  the result \<^verbatim>\<open>r\<close>, the panic in flight if there is one, \<^verbatim>\<open>j.input\<close>, and the world.
\<close>

record frame =
  r :: webpJobResult
  panic :: "error option"
  j_input :: string
  wld :: world

text \<open>The slice expression \<^verbatim>\<open>s[:n]\<close>, which panics when \<open>n\<close> is out of range.\<close>

definition slice_to :: "string \<Rightarrow> int \<Rightarrow> string option" where
  "slice_to s n = (if 0 \<le> n \<and> n \<le> int (length s) then Some (take (nat n) s) else None)"

text \<open>
  Lines 426 to 449: the encoder has returned no error. The output's size is read, the
  percentage is stored, and an output bigger than the input is removed.
\<close>

definition validate_output :: "webpJobResult \<Rightarrow> string \<Rightarrow> 64 word \<Rightarrow> world \<Rightarrow> frame" where
  "validate_output r0 inp fSizeTarget w =
     (case mustGetFileSize (outputFile r0) w of
        (Inl e, w1) \<Rightarrow> \<lparr>r = r0, panic = Some e, j_input = inp, wld = w1\<rparr>
      | (Inr fSizeOutput, w1) \<Rightarrow>
          (let r1 = r0\<lparr>compression := compression_percent fSizeOutput fSizeTarget\<rparr> in
           if err r1 \<noteq> None then \<lparr>r = r1, panic = None, j_input = inp, wld = w1\<rparr>
           else if fSizeTarget < fSizeOutput then
             (case os_Remove (outputFile r1) w1 of
                (e, w2) \<Rightarrow> \<lparr>r = r1\<lparr>err := e\<rparr>, panic = None, j_input = inp, wld = w2\<rparr>)
           else \<lparr>r = r1, panic = None, j_input = inp, wld = w1\<rparr>))"

text \<open>
  Lines 400 to 424: the size of the original, the minimum-size gate, the dry-run gate
  and the call of the encoder.
\<close>

definition convert :: "encoder \<Rightarrow> config \<Rightarrow> 64 word \<Rightarrow> webpJobResult \<Rightarrow> string \<Rightarrow> world \<Rightarrow> frame" where
  "convert enc cfg q r0 inp w =
     (case mustGetFileSize inp w of
        (Inl e, w1) \<Rightarrow> \<lparr>r = r0, panic = Some e, j_input = inp, wld = w1\<rparr>
      | (Inr fSizeTarget, w1) \<Rightarrow>
          (if fSizeTarget < minFileSize cfg then \<lparr>r = r0, panic = None, j_input = inp, wld = w1\<rparr>
           else if dryRun cfg then \<lparr>r = r0, panic = None, j_input = inp, wld = w1\<rparr>
           else
             (case run_CWebP enc q inp (outputFile r0) w1 of
                (e, w2) \<Rightarrow>
                  (let r1 = r0\<lparr>err := e\<rparr> in
                   if err r1 \<noteq> None then \<lparr>r = r1, panic = None, j_input = inp, wld = w2\<rparr>
                   else validate_output r1 inp fSizeTarget w2))))"

text \<open>Lines 381 to 388: the output path, from the absolute input path and the two decorations.\<close>

definition output_path :: "config \<Rightarrow> string \<Rightarrow> string option" where
  "output_path cfg inp =
     (let targetExt = Ext inp;
          base = Base inp;
          path = Dir inp
      in case slice_to base (int (length base) - int (length targetExt)) of
           None \<Rightarrow> None
         | Some stem \<Rightarrow> Some (Join path (prependToName cfg @ stem @ appendToName cfg @ ''.webp'')))"

text \<open>Lines 363 to 398, then the rest: the body of \<^verbatim>\<open>execute\<close> without the deferred function.\<close>

definition execute_body :: "encoder \<Rightarrow> config \<Rightarrow> job \<Rightarrow> world \<Rightarrow> frame" where
  "execute_body enc cfg j w =
     (let r0 = \<lparr>err = None, compression = Finite 0, exists = False, outputFile = []\<rparr> in
      case Abs (input j) w of
        (Inl e, w1) \<Rightarrow> \<lparr>r = r0\<lparr>err := Some e\<rparr>, panic = None, j_input = [], wld = w1\<rparr>
      | (Inr inp, w1) \<Rightarrow>
          (case output_path cfg inp of
             None \<Rightarrow> \<lparr>r = r0, panic = Some SliceBounds, j_input = inp, wld = w1\<rparr>
           | Some outp \<Rightarrow>
               (let r1 = r0\<lparr>outputFile := outp\<rparr> in
                if \<not> replace cfg then
                  (case os_Stat (outputFile r1) w1 of
                     (Inr _, w2) \<Rightarrow> \<lparr>r = r1\<lparr>exists := True\<rparr>, panic = None, j_input = inp, wld = w2\<rparr>
                   | (Inl _, w2) \<Rightarrow> convert enc cfg (quality j) r1 inp w2)
                else convert enc cfg (quality j) r1 inp w1)))"

text \<open>
  \<^verbatim>\<open>execute\<close>: the deferred function runs when the body returns and when it panics.
  It sends \<^verbatim>\<open>r\<close> on \<^verbatim>\<open>j.resCh\<close>, where the reader started on line 362 receives it and
  stores it in \<^verbatim>\<open>j.res\<close>, and closes the channel; a panic then goes on to the caller.
\<close>

record outcome =
  job_after :: job
  panicked :: "error option"
  world_after :: world

definition execute :: "encoder \<Rightarrow> config \<Rightarrow> job \<Rightarrow> world \<Rightarrow> outcome" where
  "execute enc cfg j w =
     (let f = execute_body enc cfg j w in
      \<lparr>job_after = j\<lparr>input := j_input f, res := Some (r f), resCh := resCh j @ [Send (r f), Close]\<rparr>,
       panicked = panic f,
       world_after = wld f\<rparr>)"

subsection \<open>\<^verbatim>\<open>pool.worker\<close>, one worker\<close>




subsection \<open>The pool: \<^verbatim>\<open>newPool\<close>, \<^verbatim>\<open>start\<close>, \<^verbatim>\<open>worker\<close>, \<^verbatim>\<open>wait\<close> and \<^verbatim>\<open>stop\<close>\<close>

text \<open>
  The pool with all its goroutines is a state and the events that change it. Each
  worker goroutine is at the \<^verbatim>\<open>select\<close> of line 474, inside \<^verbatim>\<open>p.execute(j)\<close> (line
  481), or has returned. The goroutine that owns the pool (\<^verbatim>\<open>main\<close>) is running, is
  blocked in the \<^verbatim>\<open>p.wg.Wait()\<close> of \<^verbatim>\<open>wait\<close> or of \<^verbatim>\<open>stop\<close>, or has returned from
  \<^verbatim>\<open>stop\<close>. \<open>started\<close> and \<open>delivered\<close> record the jobs received from \<^verbatim>\<open>p.jobs\<close> and the
  jobs whose \<^verbatim>\<open>execute\<close> has run its deferred function.
\<close>

datatype goroutine = AtSelect | InExecute job | Returned

datatype caller_pc = Running | InWait | InStop | StopReturned

record pool =
  workers :: int
  jobs_closed :: bool
  ctx_done :: bool
  wg :: int
  goroutines :: "goroutine list"
  caller :: caller_pc
  started :: "job list"
  delivered :: "job list"
  sys :: world
  crashed :: "error option"

text \<open>
  \<^verbatim>\<open>newPool\<close> with \<^verbatim>\<open>start\<close>: the loop adds one to the wait group and starts one worker
  for each \<open>i\<close> below \<^verbatim>\<open>p.workers\<close>, none when that is not positive.
\<close>

definition newPool :: "int \<Rightarrow> world \<Rightarrow> pool" where
  "newPool n w =
     \<lparr>workers = n, jobs_closed = False, ctx_done = False, wg = int (nat n),
      goroutines = replicate (nat n) AtSelect, caller = Running,
      started = [], delivered = [], sys = w, crashed = None\<rparr>"

text \<open>
  The events, each one atomic step of one goroutine:
  \<^item> \<open>Submit i p q\<close>: the \<^verbatim>\<open>select\<close> of worker \<open>i\<close> receives the job that a sender offers
    on the open queue (lines 475 and 533);
  \<^item> \<open>Execute i\<close>: worker \<open>i\<close> runs \<^verbatim>\<open>p.execute(j)\<close> to its end (line 481); a panic runs
    the worker's deferred \<^verbatim>\<open>p.wg.Done()\<close> on its way out and ends the process;
  \<^item> \<open>NoMoreWork i\<close>: the \<^verbatim>\<open>select\<close> finds the queue closed and the worker returns
    (lines 476 to 479), running \<^verbatim>\<open>p.wg.Done()\<close>;
  \<^item> \<open>DoneEarly i\<close>: the \<^verbatim>\<open>select\<close> finds the context cancelled and the worker returns
    (lines 482 to 485), running \<^verbatim>\<open>p.wg.Done()\<close>;
  \<^item> \<open>CallWait\<close>, \<open>WaitReturns\<close>: \<^verbatim>\<open>close(p.jobs)\<close>, then \<^verbatim>\<open>p.wg.Wait()\<close> returns, which it
    does when the counter is zero (lines 460 and 461);
  \<^item> \<open>CallStop\<close>, \<open>StopReturns\<close>: \<^verbatim>\<open>p.done()\<close>, then \<^verbatim>\<open>p.wg.Wait()\<close> returns (lines 465
    and 466).
  A \<^verbatim>\<open>select\<close> with both cases ready may take either, so \<open>Submit\<close> stays possible after
  the cancellation. \<open>fire\<close> is \<open>None\<close> for an event that cannot happen in the state.
\<close>

datatype event =
    Submit nat string "64 word"
  | Execute nat
  | NoMoreWork nat
  | DoneEarly nat
  | CallWait
  | WaitReturns
  | CallStop
  | StopReturns

definition goroutine_at :: "pool \<Rightarrow> nat \<Rightarrow> goroutine option" where
  "goroutine_at s i = (if i < length (goroutines s) then Some (goroutines s ! i) else None)"

fun fire :: "encoder \<Rightarrow> config \<Rightarrow> event \<Rightarrow> pool \<Rightarrow> pool option" where
  "fire enc cfg (Submit i p q) s =
     (if goroutine_at s i = Some AtSelect \<and> \<not> jobs_closed s
      then Some (s\<lparr>goroutines := (goroutines s)[i := InExecute (newJob p q)],
                   started := started s @ [newJob p q]\<rparr>)
      else None)"
| "fire enc cfg (Execute i) s =
     (case goroutine_at s i of
        Some (InExecute j) \<Rightarrow>
          (let out = execute enc cfg j (sys s) in
           case panicked out of
             None \<Rightarrow>
               Some (s\<lparr>goroutines := (goroutines s)[i := AtSelect],
                       delivered := delivered s @ [job_after out],
                       sys := world_after out\<rparr>)
           | Some e \<Rightarrow>
               Some (s\<lparr>goroutines := (goroutines s)[i := Returned], wg := wg s - 1,
                       delivered := delivered s @ [job_after out],
                       sys := world_after out, crashed := Some e\<rparr>))
      | _ \<Rightarrow> None)"
| "fire enc cfg (NoMoreWork i) s =
     (if goroutine_at s i = Some AtSelect \<and> jobs_closed s
      then Some (s\<lparr>goroutines := (goroutines s)[i := Returned], wg := wg s - 1\<rparr>)
      else None)"
| "fire enc cfg (DoneEarly i) s =
     (if goroutine_at s i = Some AtSelect \<and> ctx_done s
      then Some (s\<lparr>goroutines := (goroutines s)[i := Returned], wg := wg s - 1\<rparr>)
      else None)"
| "fire enc cfg CallWait s =
     (if caller s = Running \<and> \<not> jobs_closed s
      then Some (s\<lparr>jobs_closed := True, caller := InWait\<rparr>) else None)"
| "fire enc cfg WaitReturns s =
     (if caller s = InWait \<and> wg s = 0 then Some (s\<lparr>caller := Running\<rparr>) else None)"
| "fire enc cfg CallStop s =
     (if caller s = Running then Some (s\<lparr>ctx_done := True, caller := InStop\<rparr>) else None)"
| "fire enc cfg StopReturns s =
     (if caller s = InStop \<and> wg s = 0 then Some (s\<lparr>caller := StopReturned\<rparr>) else None)"

text \<open>A schedule is a list of events; nothing happens after the process has crashed.\<close>

fun run_events :: "encoder \<Rightarrow> config \<Rightarrow> event list \<Rightarrow> pool \<Rightarrow> pool option" where
  "run_events enc cfg [] s = Some s"
| "run_events enc cfg (ev # evs) s =
     (if crashed s \<noteq> None then None
      else (case fire enc cfg ev s of None \<Rightarrow> None | Some s' \<Rightarrow> run_events enc cfg evs s'))"

subsection \<open>Vocabulary of the statements\<close>

text \<open>The calls that change the file system: running the encoder and removing a file.\<close>

fun mutates :: "syscall \<Rightarrow> bool" where
  "mutates (Encode _ _ _) = True"
| "mutates (Remove _) = True"
| "mutates _ = False"

text \<open>
  The world in which line 401 is reached: the existence gate has added its
  \<^verbatim>\<open>os.Stat\<close> of the output path when \<^verbatim>\<open>replace\<close> is false.
\<close>

definition gate_world :: "config \<Rightarrow> string \<Rightarrow> world \<Rightarrow> world" where
  "gate_world cfg outp w1 = (if replace cfg then w1 else w1\<lparr>trace := trace w1 @ [Stat outp]\<rparr>)"

text \<open>
  The job for path \<open>p\<close> reaches the call of the encoder: the path resolves to \<open>a\<close>, the
  output path is \<open>outp\<close>, the existence gate lets the job pass, the input has size
  \<open>fSizeTarget\<close>, which is not below the minimum, and the run is not a dry run.
\<close>

definition reaches_encoder :: "config \<Rightarrow> string \<Rightarrow> world \<Rightarrow> string \<Rightarrow> string \<Rightarrow> 64 word \<Rightarrow> bool" where
  "reaches_encoder cfg p w a outp fSizeTarget \<longleftrightarrow>
     fst (Abs p w) = Inr a \<and> output_path cfg a = Some outp \<and>
     (replace cfg \<or> files (os w) outp = None) \<and>
     files (os w) a = Some fSizeTarget \<and> \<not> fSizeTarget < minFileSize cfg \<and> \<not> dryRun cfg"

text \<open>
  The world after the encoder has run and left the state \<open>s1\<close>, and the world after the
  output's size has been read as well.
\<close>

definition encoded_world :: "config \<Rightarrow> string \<Rightarrow> world \<Rightarrow> 64 word \<Rightarrow> string \<Rightarrow> string \<Rightarrow> os_state \<Rightarrow> world" where
  "encoded_world cfg p w q a outp s1 =
     \<lparr>os = s1, trace = trace (gate_world cfg outp (snd (Abs p w))) @ [Stat a, Encode q a outp]\<rparr>"

definition measured_world :: "config \<Rightarrow> string \<Rightarrow> world \<Rightarrow> 64 word \<Rightarrow> string \<Rightarrow> string \<Rightarrow> os_state \<Rightarrow> world" where
  "measured_world cfg p w q a outp s1 =
     \<lparr>os = s1,
      trace = trace (gate_world cfg outp (snd (Abs p w))) @ [Stat a, Encode q a outp, Stat outp]\<rparr>"

text \<open>
  A goroutine that has not returned, and one that is inside \<^verbatim>\<open>execute\<close>. The pool's
  invariant: the wait group counts the goroutines that have not returned; the context
  is cancelled once \<^verbatim>\<open>stop\<close> has been called; \<^verbatim>\<open>stop\<close> has returned only with the
  counter at zero; every delivered job's channel holds one send and the close; each
  started job is delivered or in flight; a job in flight has an untouched channel.
\<close>

fun live :: "goroutine \<Rightarrow> bool" where
  "live Returned = False"
| "live _ = True"

fun in_flight :: "goroutine \<Rightarrow> bool" where
  "in_flight (InExecute _) = True"
| "in_flight _ = False"

definition pool_inv :: "pool \<Rightarrow> bool" where
  "pool_inv s \<longleftrightarrow>
     wg s = int (length (filter live (goroutines s))) \<and>
     (caller s = InStop \<or> caller s = StopReturned \<longrightarrow> ctx_done s) \<and>
     (caller s = StopReturned \<longrightarrow> wg s = 0) \<and>
     (\<forall>j\<in>set (delivered s). \<exists>v. resCh j = [Send v, Close] \<and> res j = Some v) \<and>
     length (started s) = length (delivered s) + length (filter in_flight (goroutines s)) \<and>
     (\<forall>g\<in>set (goroutines s). \<forall>j. g = InExecute j \<longrightarrow> resCh j = [] \<and> res j = None)"

subsection \<open>Concrete systems for the examples\<close>

definition fresh_world :: "os_state \<Rightarrow> world" where
  "fresh_world s = \<lparr>os = s, trace = []\<rparr>"

text \<open>The flags' defaults; \<^verbatim>\<open>-min-size\<close> is \<^verbatim>\<open>10KB\<close>, that is 10240 bytes.\<close>

definition default_config :: config where
  "default_config =
     \<lparr>replace = False, dryRun = False, prependToName = [], appendToName = [], minFileSize = 10240\<rparr>"

definition pics_os :: os_state where
  "pics_os = \<lparr>files = [''/pics/cat.jpg'' \<mapsto> 51200], undeletable = (\<lambda>_. False), cwd = Inr ''/pics''\<rparr>"

definition converted_os :: os_state where
  "converted_os =
     \<lparr>files = [''/pics/cat.jpg'' \<mapsto> 51200, ''/pics/cat.webp'' \<mapsto> 20480],
      undeletable = (\<lambda>_. False), cwd = Inr ''/pics''\<rparr>"

text \<open>An encoder that writes an output of a given size, and one that fails.\<close>

definition encoder_writing :: "64 word \<Rightarrow> encoder" where
  "encoder_writing sz q inp outp s = (None, s\<lparr>files := (files s)(outp \<mapsto> sz)\<rparr>)"


text \<open>A picture below the minimum size; a dry run; a process whose working directory is gone.\<close>

definition small_os :: os_state where
  "small_os = \<lparr>files = [''/pics/cat.jpg'' \<mapsto> 5120], undeletable = (\<lambda>_. False), cwd = Inr ''/pics''\<rparr>"



text \<open>The state an encoder leaves that wrote an output bigger than the input.\<close>

definition oversize_os :: os_state where
  "oversize_os = pics_os\<lparr>files := (files pics_os)(''/pics/cat.webp'' \<mapsto> 61440)\<rparr>"


section \<open>Properties\<close>

subsection \<open>Paths\<close>

lemma ext_scan_shape:
  "ext_scan xs acc = [] \<or>
   (\<exists>ys zs. xs = ys @ CHR ''.'' # zs \<and> Separator \<notin> set ys \<and>
      ext_scan xs acc = CHR ''.'' # rev ys @ acc)"
proof (induction xs arbitrary: acc)
  case Nil
  then show ?case by simp
next
  case (Cons c cs)
  show ?case
  proof (cases "c = Separator")
    case True
    then show ?thesis by simp
  next
    case sep: False
    show ?thesis
    proof (cases "c = CHR ''.''")
      case True
      then have "c # cs = [] @ CHR ''.'' # cs \<and> Separator \<notin> set [] \<and>
          ext_scan (c # cs) acc = CHR ''.'' # rev [] @ acc"
        using sep by simp
      then show ?thesis by blast
    next
      case False
      from Cons.IH [of "c # acc"] show ?thesis
      proof
        assume "ext_scan cs (c # acc) = []"
        then show ?thesis using sep False by simp
      next
        assume "\<exists>ys zs. cs = ys @ CHR ''.'' # zs \<and> Separator \<notin> set ys \<and>
          ext_scan cs (c # acc) = CHR ''.'' # rev ys @ c # acc"
        then obtain ys zs where h: "cs = ys @ CHR ''.'' # zs" "Separator \<notin> set ys"
          "ext_scan cs (c # acc) = CHR ''.'' # rev ys @ c # acc" by blast
        have "c # cs = (c # ys) @ CHR ''.'' # zs \<and> Separator \<notin> set (c # ys) \<and>
          ext_scan (c # cs) acc = CHR ''.'' # rev (c # ys) @ acc"
          using h sep False by simp
        then show ?thesis by blast
      qed
    qed
  qed
qed

lemma takeWhile_no_sep:
  "Separator \<notin> set ys \<Longrightarrow>
   takeWhile (\<lambda>c. c \<noteq> Separator) (ys @ zs) = ys @ takeWhile (\<lambda>c. c \<noteq> Separator) zs"
  by (induction ys) auto

lemma Base_Ext: "\<exists>stem. Base p = stem @ Ext p"
proof -
  from ext_scan_shape [of "rev p" "[]"] show ?thesis
  proof
    assume "ext_scan (rev p) [] = []"
    then show ?thesis by (simp add: Ext_def)
  next
    assume "\<exists>ys zs. rev p = ys @ CHR ''.'' # zs \<and> Separator \<notin> set ys \<and>
      ext_scan (rev p) [] = CHR ''.'' # rev ys @ []"
    then obtain ys zs where h: "rev p = ys @ CHR ''.'' # zs" "Separator \<notin> set ys"
      "ext_scan (rev p) [] = CHR ''.'' # rev ys" by auto
    have ne: "p \<noteq> []" using h(1) by auto
    have dot: "CHR ''.'' \<noteq> Separator" by (simp add: Separator_def)
    have dw: "dropWhile (\<lambda>c. c = Separator) (rev p) = rev p"
      using h(1,2) dot by (cases ys) auto
    have tw: "takeWhile (\<lambda>c. c \<noteq> Separator) (rev p) =
        ys @ CHR ''.'' # takeWhile (\<lambda>c. c \<noteq> Separator) zs"
      using h(1,2) dot by (simp add: takeWhile_no_sep)
    have "Base p = rev (takeWhile (\<lambda>c. c \<noteq> Separator) zs) @ Ext p"
      using ne dw tw h(3) by (simp add: Base_def Ext_def Let_def)
    then show ?thesis by blast
  qed
qed

lemma slice_stem:
  "slice_to (Base p) (int (length (Base p)) - int (length (Ext p))) =
     Some (take (length (Base p) - length (Ext p)) (Base p))"
proof -
  obtain stem where "Base p = stem @ Ext p" using Base_Ext by blast
  then have "length (Ext p) \<le> length (Base p)" by (metis length_append le_add2)
  then show ?thesis by (simp add: slice_to_def nat_diff_distrib')
qed

lemma output_path_eq:
  "output_path cfg a =
     Some (Join (Dir a)
       (prependToName cfg @ take (length (Base a) - length (Ext a)) (Base a) @
        appendToName cfg @ ''.webp''))"
  by (simp add: output_path_def Let_def slice_stem)

lemma Abs_os: "os (snd (Abs p w)) = os w"
  by (simp add: Abs_def os_Getwd_def split: sum.splits)

subsection \<open>The stages of \<^verbatim>\<open>execute\<close>\<close>

lemma Abs_mutates: "filter mutates (trace (snd (Abs p w))) = filter mutates (trace w)"
  by (simp add: Abs_def os_Getwd_def split: sum.splits)

lemma execute_resCh:
  "resCh (job_after (execute enc cfg (newJob p q) w)) =
     [Send (r (execute_body enc cfg (newJob p q) w)), Close]"
  by (simp add: execute_def newJob_def Let_def)


lemma body_exists:
  assumes "fst (Abs p w) = Inr a" "output_path cfg a = Some outp"
    "\<not> replace cfg" "files (os w) outp = Some sz"
  shows "execute_body enc cfg (newJob p q) w =
    \<lparr>r = \<lparr>err = None, compression = Finite 0, exists = True, outputFile = outp\<rparr>,
     panic = None, j_input = a,
     wld = (snd (Abs p w))\<lparr>trace := trace (snd (Abs p w)) @ [Stat outp]\<rparr>\<rparr>"
proof -
  obtain w1 where a: "Abs p w = (Inr a, w1)" using assms(1) by (cases "Abs p w") auto
  have "os w1 = os w" using Abs_os [of p w] a by simp
  then show ?thesis using a assms(2-4)
    by (simp add: execute_body_def newJob_def os_Stat_def)
qed

lemma body_convert:
  assumes "fst (Abs p w) = Inr a" "output_path cfg a = Some outp"
    "replace cfg \<or> files (os w) outp = None"
  shows "execute_body enc cfg (newJob p q) w =
    convert enc cfg q \<lparr>err = None, compression = Finite 0, exists = False, outputFile = outp\<rparr> a
      (gate_world cfg outp (snd (Abs p w)))"
proof -
  obtain w1 where a: "Abs p w = (Inr a, w1)" using assms(1) by (cases "Abs p w") auto
  have "os w1 = os w" using Abs_os [of p w] a by simp
  then show ?thesis using a assms(2-3)
    by (auto simp add: execute_body_def newJob_def os_Stat_def gate_world_def)
qed

lemma gate_world_os: "os (gate_world cfg outp w1) = os w1"
  by (simp add: gate_world_def)

lemma gate_world_mutates: "filter mutates (trace (gate_world cfg outp w1)) = filter mutates (trace w1)"
  by (simp add: gate_world_def)

lemma convert_small:
  assumes "files (os w) a = Some sz" "sz < minFileSize cfg"
  shows "convert enc cfg q r0 a w = \<lparr>r = r0, panic = None, j_input = a, wld = w\<lparr>trace := trace w @ [Stat a]\<rparr>\<rparr>"
  using assms by (simp add: convert_def mustGetFileSize_def os_Stat_def)



lemma convert_encode:
  assumes "files (os w) a = Some si" "\<not> si < minFileSize cfg" "\<not> dryRun cfg"
    "enc q a (outputFile r0) (os w) = (e, s1)"
  shows "convert enc cfg q r0 a w =
     (if e \<noteq> None then \<lparr>r = r0\<lparr>err := e\<rparr>, panic = None, j_input = a,
          wld = \<lparr>os = s1, trace = trace w @ [Stat a, Encode q a (outputFile r0)]\<rparr>\<rparr>
      else validate_output (r0\<lparr>err := None\<rparr>) a si
          \<lparr>os = s1, trace = trace w @ [Stat a, Encode q a (outputFile r0)]\<rparr>)"
  using assms by (simp add: convert_def mustGetFileSize_def os_Stat_def run_CWebP_def)


lemma validate_keep:
  assumes "files (os w) (outputFile r0) = Some so" "err r0 = None" "\<not> si < so"
  shows "validate_output r0 a si w =
     \<lparr>r = r0\<lparr>compression := compression_percent so si\<rparr>, panic = None, j_input = a,
      wld = w\<lparr>trace := trace w @ [Stat (outputFile r0)]\<rparr>\<rparr>"
  using assms by (simp add: validate_output_def mustGetFileSize_def os_Stat_def Let_def)

lemma validate_remove:
  assumes "files (os w) (outputFile r0) = Some so" "err r0 = None" "si < so"
  shows "validate_output r0 a si w =
     \<lparr>r = r0\<lparr>compression := compression_percent so si,
              err := fst (os_Remove (outputFile r0) (w\<lparr>trace := trace w @ [Stat (outputFile r0)]\<rparr>))\<rparr>,
      panic = None, j_input = a,
      wld = snd (os_Remove (outputFile r0) (w\<lparr>trace := trace w @ [Stat (outputFile r0)]\<rparr>))\<rparr>"
  using assms by (simp add: validate_output_def mustGetFileSize_def os_Stat_def Let_def split: prod.splits)

subsection \<open>The examples' paths, and the output path in the result\<close>

lemma Clean_cat: "Clean ''/pics/cat.jpg'' = ''/pics/cat.jpg''"
  by (simp add: Clean_def IsAbs_def Separator_def)

lemma Abs_cat: "Abs ''/pics/cat.jpg'' w = (Inr ''/pics/cat.jpg'', w)"
  by (simp add: Abs_def IsAbs_def Separator_def Clean_cat)

lemma output_path_cat: "output_path default_config ''/pics/cat.jpg'' = Some ''/pics/cat.webp''"
  by (simp add: output_path_def Let_def Ext_def Base_def Dir_def Join_def Clean_def IsAbs_def
      Separator_def slice_to_def default_config_def)

lemma body_outputFile_validate: "outputFile (r (validate_output r0 a si w)) = outputFile r0"
  by (simp add: validate_output_def Let_def split: prod.splits sum.splits)

lemma body_outputFile_convert: "outputFile (r (convert enc cfg q r0 a w)) = outputFile r0"
  by (simp add: convert_def Let_def body_outputFile_validate split: prod.splits sum.splits)

lemma body_outputFile:
  assumes "fst (Abs p w) = Inr a" "output_path cfg a = Some outp"
  shows "outputFile (r (execute_body enc cfg (newJob p q) w)) = outp"
proof (cases "replace cfg \<or> files (os w) outp = None")
  case True
  then show ?thesis using body_convert [OF assms True] by (simp add: body_outputFile_convert)
next
  case False
  then obtain sz where "\<not> replace cfg" "files (os w) outp = Some sz" by auto
  then show ?thesis using body_exists [OF assms] by simp
qed

subsection \<open>Dry runs, and the stages after the encoder\<close>



lemma body_reaches_encoder:
  assumes "reaches_encoder cfg p w a outp si" and "enc q a outp (os w) = (e, s1)"
  shows "execute_body enc cfg (newJob p q) w =
     (if e \<noteq> None then
        \<lparr>r = \<lparr>err = e, compression = Finite 0, exists = False, outputFile = outp\<rparr>,
         panic = None, j_input = a, wld = encoded_world cfg p w q a outp s1\<rparr>
      else validate_output \<lparr>err = None, compression = Finite 0, exists = False, outputFile = outp\<rparr>
             a si (encoded_world cfg p w q a outp s1))"
proof -
  let ?g = "gate_world cfg outp (snd (Abs p w))"
  let ?r0 = "\<lparr>err = None, compression = Finite 0, exists = False, outputFile = outp\<rparr>"
  have a: "fst (Abs p w) = Inr a" "output_path cfg a = Some outp"
    "replace cfg \<or> files (os w) outp = None"
    using assms(1) by (simp_all add: reaches_encoder_def)
  have g: "os ?g = os w" using Abs_os [of p w] by (simp add: gate_world_os)
  have s: "files (os ?g) a = Some si" "\<not> si < minFileSize cfg" "\<not> dryRun cfg"
    using assms(1) g by (simp_all add: reaches_encoder_def)
  have e: "enc q a (outputFile ?r0) (os ?g) = (e, s1)" using assms(2) g by simp
  show ?thesis
    using body_convert [OF a, of enc q] convert_encode [where enc = enc and q = q, OF s e]
    by (simp add: encoded_world_def)
qed



lemma body_output_kept:
  assumes "reaches_encoder cfg p w a outp si" and "enc q a outp (os w) = (None, s1)"
    and "files s1 outp = Some so" and "\<not> si < so"
  shows "execute_body enc cfg (newJob p q) w =
        \<lparr>r = \<lparr>err = None, compression = compression_percent so si, exists = False, outputFile = outp\<rparr>,
         panic = None, j_input = a, wld = measured_world cfg p w q a outp s1\<rparr>"
proof -
  let ?r0 = "\<lparr>err = None, compression = Finite 0, exists = False, outputFile = outp\<rparr>"
  have "files (os (encoded_world cfg p w q a outp s1)) (outputFile ?r0) = Some so"
    using assms(3) by (simp add: encoded_world_def)
  from validate_keep [OF this _ assms(4), of a] show ?thesis
    using body_reaches_encoder [where enc = enc and q = q, OF assms(1,2)]
    by (simp add: encoded_world_def measured_world_def)
qed

lemma body_output_removed:
  assumes "reaches_encoder cfg p w a outp si" and "enc q a outp (os w) = (None, s1)"
    and "files s1 outp = Some so" and "si < so"
  shows "execute_body enc cfg (newJob p q) w =
        \<lparr>r = \<lparr>err = fst (os_Remove outp (measured_world cfg p w q a outp s1)),
              compression = compression_percent so si, exists = False, outputFile = outp\<rparr>,
         panic = None, j_input = a,
         wld = snd (os_Remove outp (measured_world cfg p w q a outp s1))\<rparr>"
proof -
  let ?r0 = "\<lparr>err = None, compression = Finite 0, exists = False, outputFile = outp\<rparr>"
  have "files (os (encoded_world cfg p w q a outp s1)) (outputFile ?r0) = Some so"
    using assms(3) by (simp add: encoded_world_def)
  from validate_remove [OF this _ assms(4), of a] show ?thesis
    using body_reaches_encoder [where enc = enc and q = q, OF assms(1,2)]
    by (simp add: encoded_world_def measured_world_def)
qed

lemma os_Remove_present:
  assumes "files (os w) f = Some sz"
  shows "fst (os_Remove f w) = (if undeletable (os w) f then Some (RemoveDenied f) else None) \<and>
         os (snd (os_Remove f w)) =
           (if undeletable (os w) f then os w else (os w)\<lparr>files := (files (os w))(f := None)\<rparr>)"
  using assms by (simp add: os_Remove_def Let_def)

subsection \<open>When \<^verbatim>\<open>execute\<close> panics\<close>

lemma reaches_encoder_cat:
  "reaches_encoder default_config ''/pics/cat.jpg'' (fresh_world pics_os)
     ''/pics/cat.jpg'' ''/pics/cat.webp'' 51200"
  by (simp add: reaches_encoder_def Abs_cat output_path_cat)
     (simp add: default_config_def fresh_world_def pics_os_def)







subsection \<open>Rounding to \<^verbatim>\<open>float64\<close>\<close>








lemma rne_of_int [simp]: "rne (of_int n) = n"
  by (simp add: rne_def)



















lemma rne_numeral [simp]: "rne (numeral k) = numeral k"
  using rne_of_int [of "numeral k"] by simp



















subsection \<open>The pool's invariant\<close>

lemma filter_update_length:
  assumes "i < length xs"
  shows "int (length (filter P (xs[i := y]))) =
         int (length (filter P xs)) - (if P (xs ! i) then 1 else 0) + (if P y then 1 else 0)"
  using assms
proof (induction xs arbitrary: i)
  case Nil
  then show ?case by simp
next
  case (Cons x xs)
  show ?case
  proof (cases i)
    case 0
    then show ?thesis by simp
  next
    case (Suc k)
    then have "k < length xs" using Cons.prems by simp
    from Cons.IH [OF this] show ?thesis using Suc by (auto split: if_splits)
  qed
qed

lemma filter_update_length_nat:
  assumes "i < length xs"
  shows "length (filter P (xs[i := y])) + (if P (xs ! i) then 1 else 0) =
         length (filter P xs) + (if P y then 1 else 0)"
  using filter_update_length [OF assms, of P y] by (auto split: if_splits)

lemma set_update_cases:
  assumes "g \<in> set (xs[i := y])"
  shows "g = y \<or> g \<in> set xs"
  using assms set_update_subset_insert [of xs i y] by auto

lemma fresh_after_update:
  assumes "\<forall>g\<in>set gs. \<forall>j. g = InExecute j \<longrightarrow> resCh j = [] \<and> res j = None"
    and "\<forall>j. y = InExecute j \<longrightarrow> resCh j = [] \<and> res j = None"
  shows "\<forall>g\<in>set (gs[i := y]). \<forall>j. g = InExecute j \<longrightarrow> resCh j = [] \<and> res j = None"
proof
  fix g
  assume "g \<in> set (gs[i := y])"
  then have "g = y \<or> g \<in> set gs" by (rule set_update_cases)
  then show "\<forall>j. g = InExecute j \<longrightarrow> resCh j = [] \<and> res j = None"
    using assms by blast
qed

lemma live_member_pos:
  assumes "g \<in> set gs" and "live g"
  shows "1 \<le> int (length (filter live gs))"
proof -
  have "g \<in> set (filter live gs)" using assms by simp
  then have "0 < length (filter live gs)" by (rule length_pos_if_in_set)
  then have "1 \<le> length (filter live gs)" by (simp only: Suc_le_eq One_nat_def)
  then show ?thesis by (simp only: of_nat_le_iff [symmetric, where ?'a = int] of_nat_1)
qed

lemma newPool_inv: "pool_inv (newPool n w)"
  by (simp add: pool_inv_def newPool_def)

lemma execute_new_channel:
  assumes "resCh j = []"
  shows "\<exists>v. resCh (job_after (execute enc cfg j w)) = [Send v, Close] \<and>
             res (job_after (execute enc cfg j w)) = Some v"
  using assms by (simp add: execute_def Let_def)

lemma fire_inv:
  assumes "pool_inv s" and "fire enc cfg ev s = Some s'"
  shows "pool_inv s'"
proof (cases ev)
  case (Submit i p q)
  then have a: "i < length (goroutines s)" "goroutines s ! i = AtSelect"
    and s': "s' = s\<lparr>goroutines := (goroutines s)[i := InExecute (newJob p q)],
                   started := started s @ [newJob p q]\<rparr>"
    using assms(2) by (auto simp add: goroutine_at_def split: if_splits)
  have l: "int (length (filter live ((goroutines s)[i := InExecute (newJob p q)]))) =
      int (length (filter live (goroutines s)))"
    using filter_update_length [OF a(1), of live "InExecute (newJob p q)"] a(2) by simp
  have f: "length (filter in_flight ((goroutines s)[i := InExecute (newJob p q)])) =
      length (filter in_flight (goroutines s)) + 1"
    using filter_update_length_nat [OF a(1), of in_flight "InExecute (newJob p q)"] a(2) by simp
  have n: "\<forall>g\<in>set ((goroutines s)[i := InExecute (newJob p q)]).
      \<forall>j. g = InExecute j \<longrightarrow> resCh j = [] \<and> res j = None"
  proof (rule fresh_after_update)
    show "\<forall>g\<in>set (goroutines s). \<forall>j. g = InExecute j \<longrightarrow> resCh j = [] \<and> res j = None"
      using assms(1) by (simp add: pool_inv_def)
    show "\<forall>j. InExecute (newJob p q) = InExecute j \<longrightarrow> resCh j = [] \<and> res j = None"
      by (auto simp add: newJob_def)
  qed
  have m: "AtSelect \<in> set (goroutines s)" using a nth_mem by metis
  have pos: "1 \<le> int (length (filter live (goroutines s)))"
    by (rule live_member_pos [of "AtSelect"]) (use m in simp_all)
  have c: "caller s \<noteq> StopReturned" using assms(1) pos by (auto simp add: pool_inv_def)
  show ?thesis using assms(1) l f n c by (auto simp add: pool_inv_def s')
next
  case (Execute i)
  then obtain j where a: "i < length (goroutines s)" "goroutines s ! i = InExecute j"
    using assms(2) by (auto simp add: goroutine_at_def split: if_splits option.splits goroutine.splits)
  let ?out = "execute enc cfg j (sys s)"
  have "InExecute j \<in> set (goroutines s)" using a nth_mem by metis
  then have "resCh j = []" using assms(1) by (simp add: pool_inv_def)
  then have d: "\<exists>v. resCh (job_after ?out) = [Send v, Close] \<and> res (job_after ?out) = Some v"
    by (rule execute_new_channel)
  have pos: "1 \<le> int (length (filter live (goroutines s)))"
    by (rule live_member_pos [of "InExecute j"]) (use \<open>InExecute j \<in> set (goroutines s)\<close> in simp_all)
  show ?thesis
  proof (cases "panicked ?out")
    case None
    then have s': "s' = s\<lparr>goroutines := (goroutines s)[i := AtSelect],
                       delivered := delivered s @ [job_after ?out],
                       sys := world_after ?out\<rparr>"
      using assms(2) Execute a by (simp add: goroutine_at_def Let_def)
    have l: "int (length (filter live ((goroutines s)[i := AtSelect]))) =
        int (length (filter live (goroutines s)))"
      using filter_update_length [OF a(1), of live AtSelect] a(2) by simp
    have f: "length (filter in_flight ((goroutines s)[i := AtSelect])) + 1 =
        length (filter in_flight (goroutines s))"
      using filter_update_length_nat [OF a(1), of in_flight AtSelect] a(2) by simp
    have n: "\<forall>g\<in>set ((goroutines s)[i := AtSelect]).
        \<forall>j. g = InExecute j \<longrightarrow> resCh j = [] \<and> res j = None"
      using assms(1) fresh_after_update [of "goroutines s" AtSelect i]
      by (simp add: pool_inv_def)
    show ?thesis using assms(1) l f n d by (auto simp add: pool_inv_def s')
  next
    case (Some e)
    then have s': "s' = s\<lparr>goroutines := (goroutines s)[i := Returned], wg := wg s - 1,
                       delivered := delivered s @ [job_after ?out],
                       sys := world_after ?out, crashed := Some e\<rparr>"
      using assms(2) Execute a by (simp add: goroutine_at_def Let_def)
    have l: "int (length (filter live ((goroutines s)[i := Returned]))) =
        int (length (filter live (goroutines s))) - 1"
      using filter_update_length [OF a(1), of live Returned] a(2) by simp
    have f: "length (filter in_flight ((goroutines s)[i := Returned])) + 1 =
        length (filter in_flight (goroutines s))"
      using filter_update_length_nat [OF a(1), of in_flight Returned] a(2) by simp
    have n: "\<forall>g\<in>set ((goroutines s)[i := Returned]).
        \<forall>j. g = InExecute j \<longrightarrow> resCh j = [] \<and> res j = None"
      using assms(1) fresh_after_update [of "goroutines s" Returned i]
      by (simp add: pool_inv_def)
    have c: "caller s \<noteq> StopReturned" using assms(1) pos by (auto simp add: pool_inv_def)
    show ?thesis using assms(1) l f n d c by (auto simp add: pool_inv_def s')
  qed
next
  case (NoMoreWork i)
  then have a: "i < length (goroutines s)" "goroutines s ! i = AtSelect"
    and s': "s' = s\<lparr>goroutines := (goroutines s)[i := Returned], wg := wg s - 1\<rparr>"
    using assms(2) by (auto simp add: goroutine_at_def split: if_splits)
  have m: "AtSelect \<in> set (goroutines s)" using a nth_mem by metis
  have pos: "1 \<le> int (length (filter live (goroutines s)))"
    by (rule live_member_pos [of "AtSelect"]) (use m in simp_all)
  have l: "int (length (filter live ((goroutines s)[i := Returned]))) =
      int (length (filter live (goroutines s))) - 1"
    using filter_update_length [OF a(1), of live Returned] a(2) by simp
  have f: "length (filter in_flight ((goroutines s)[i := Returned])) =
      length (filter in_flight (goroutines s))"
    using filter_update_length_nat [OF a(1), of in_flight Returned] a(2) by simp
  have n: "\<forall>g\<in>set ((goroutines s)[i := Returned]).
      \<forall>j. g = InExecute j \<longrightarrow> resCh j = [] \<and> res j = None"
    using assms(1) fresh_after_update [of "goroutines s" Returned i]
    by (simp add: pool_inv_def)
  have c: "caller s \<noteq> StopReturned" using assms(1) pos by (auto simp add: pool_inv_def)
  show ?thesis using assms(1) l f n c by (auto simp add: pool_inv_def s')
next
  case (DoneEarly i)
  then have a: "i < length (goroutines s)" "goroutines s ! i = AtSelect"
    and s': "s' = s\<lparr>goroutines := (goroutines s)[i := Returned], wg := wg s - 1\<rparr>"
    using assms(2) by (auto simp add: goroutine_at_def split: if_splits)
  have m: "AtSelect \<in> set (goroutines s)" using a nth_mem by metis
  have pos: "1 \<le> int (length (filter live (goroutines s)))"
    by (rule live_member_pos [of "AtSelect"]) (use m in simp_all)
  have l: "int (length (filter live ((goroutines s)[i := Returned]))) =
      int (length (filter live (goroutines s))) - 1"
    using filter_update_length [OF a(1), of live Returned] a(2) by simp
  have f: "length (filter in_flight ((goroutines s)[i := Returned])) =
      length (filter in_flight (goroutines s))"
    using filter_update_length_nat [OF a(1), of in_flight Returned] a(2) by simp
  have n: "\<forall>g\<in>set ((goroutines s)[i := Returned]).
      \<forall>j. g = InExecute j \<longrightarrow> resCh j = [] \<and> res j = None"
    using assms(1) fresh_after_update [of "goroutines s" Returned i]
    by (simp add: pool_inv_def)
  have c: "caller s \<noteq> StopReturned" using assms(1) pos by (auto simp add: pool_inv_def)
  show ?thesis using assms(1) l f n c by (auto simp add: pool_inv_def s')
next
  case CallWait
  then show ?thesis using assms by (auto simp add: pool_inv_def split: if_splits)
next
  case WaitReturns
  then show ?thesis using assms by (auto simp add: pool_inv_def split: if_splits)
next
  case CallStop
  then show ?thesis using assms by (auto simp add: pool_inv_def split: if_splits)
next
  case StopReturns
  then show ?thesis using assms by (auto simp add: pool_inv_def split: if_splits)
qed

lemma run_events_inv:
  assumes "pool_inv s" and "run_events enc cfg evs s = Some s'"
  shows "pool_inv s'"
  using assms
proof (induction evs arbitrary: s)
  case Nil
  then show ?case by simp
next
  case (Cons ev evs)
  from Cons.prems(2) obtain s1 where f: "fire enc cfg ev s = Some s1"
    and r: "run_events enc cfg evs s1 = Some s'"
    by (auto split: if_splits option.splits)
  from fire_inv [OF Cons.prems(1) f] have "pool_inv s1" .
  from Cons.IH [OF this r] show ?case .
qed

lemma no_live_all_returned:
  assumes "length (filter live gs) = 0"
  shows "\<forall>g\<in>set gs. g = Returned"
proof
  fix g
  assume "g \<in> set gs"
  have "filter live gs = []" using assms by simp
  then have "\<not> live g" using \<open>g \<in> set gs\<close> by (simp add: filter_empty_conv)
  then show "g = Returned" by (cases g) simp_all
qed

lemma fire_in_flight:
  assumes "goroutine_at s i = Some (InExecute j)" and "fire enc cfg ev s = Some s'"
  shows "goroutine_at s' i = Some (InExecute j) \<or>
         (ev = Execute i \<and> goroutine_at s' i \<noteq> Some (InExecute j) \<and>
          delivered s' = delivered s @ [job_after (execute enc cfg j (sys s))])"
proof -
  have a: "i < length (goroutines s)" "goroutines s ! i = InExecute j"
    using assms(1) by (auto simp add: goroutine_at_def split: if_splits)
  have other: "goroutine_at (s\<lparr>goroutines := (goroutines s)[k := g]\<rparr>) i = Some (InExecute j)"
    if "k \<noteq> i" for k g
    using a that by (simp add: goroutine_at_def)
  show ?thesis
  proof (cases ev)
    case (Submit k p q)
    then have "k \<noteq> i" using assms by (auto split: if_splits)
    then show ?thesis using Submit assms(2) a
      by (auto simp add: goroutine_at_def split: if_splits)
  next
    case (Execute k)
    show ?thesis
    proof (cases "k = i")
      case True
      then show ?thesis using Execute assms a
        by (auto simp add: goroutine_at_def Let_def split: if_splits option.splits)
    next
      case False
      then show ?thesis using Execute assms(2) a
        by (auto simp add: goroutine_at_def Let_def
            split: if_splits option.splits goroutine.splits)
    qed
  next
    case (NoMoreWork k)
    then have "k \<noteq> i" using assms by (auto split: if_splits)
    then show ?thesis using NoMoreWork assms(2) a
      by (auto simp add: goroutine_at_def split: if_splits)
  next
    case (DoneEarly k)
    then have "k \<noteq> i" using assms by (auto split: if_splits)
    then show ?thesis using DoneEarly assms(2) a
      by (auto simp add: goroutine_at_def split: if_splits)
  next
    case CallWait
    then show ?thesis using assms by (auto simp add: goroutine_at_def split: if_splits)
  next
    case WaitReturns
    then show ?thesis using assms by (auto simp add: goroutine_at_def split: if_splits)
  next
    case CallStop
    then show ?thesis using assms by (auto simp add: goroutine_at_def split: if_splits)
  next
    case StopReturns
    then show ?thesis using assms by (auto simp add: goroutine_at_def split: if_splits)
  qed
qed

lemma execute_cat_returns:
  "panicked (execute (encoder_writing 25600) default_config (newJob ''/pics/cat.jpg'' 80)
     (fresh_world pics_os)) = None"
proof -
  have h2: "encoder_writing 25600 80 ''/pics/cat.jpg'' ''/pics/cat.webp'' (os (fresh_world pics_os)) =
     (None, pics_os\<lparr>files := (files pics_os)(''/pics/cat.webp'' \<mapsto> 25600)\<rparr>)"
    by (simp add: encoder_writing_def fresh_world_def)
  have h3: "files (pics_os\<lparr>files := (files pics_os)(''/pics/cat.webp'' \<mapsto> 25600)\<rparr>)
      ''/pics/cat.webp'' = Some 25600"
    by simp
  have h4: "\<not> (51200 :: 64 word) < 25600" by simp
  show ?thesis
    using body_output_kept [where enc = "encoder_writing 25600" and q = 80,
        OF reaches_encoder_cat h2 h3 h4]
    by (simp add: execute_def Let_def)
qed


section \<open>The claims\<close>






text \<open>
  C3. When the encoder returns no error and the output it leaves is strictly bigger
  than the input, \<^verbatim>\<open>execute\<close> calls \<^verbatim>\<open>os.Remove\<close> on the output path in the state
  the encoder left. The result's error is exactly what that call returns. When the
  removal is refused the error is the refusal; otherwise the error is nil and no file
  is at the output path when the job completes.
\<close>

theorem oversized_output_is_removed:
  assumes "reaches_encoder cfg p w a outp si" and "enc q a outp (os w) = (None, s1)"
    and "files s1 outp = Some so" and "si < so"
  shows "\<exists>v wr. resCh (job_after (execute enc cfg (newJob p q) w)) = [Send v, Close] \<and>
           panicked (execute enc cfg (newJob p q) w) = None \<and>
           os wr = s1 \<and> err v = fst (os_Remove outp wr) \<and>
           world_after (execute enc cfg (newJob p q) w) = snd (os_Remove outp wr) \<and>
           (if undeletable s1 outp
            then err v = Some (RemoveDenied outp) \<and>
                 os (world_after (execute enc cfg (newJob p q) w)) = s1
            else err v = None \<and>
                 files (os (world_after (execute enc cfg (newJob p q) w))) outp = None)"
proof -
  let ?wr = "measured_world cfg p w q a outp s1"
  let ?v = "\<lparr>err = fst (os_Remove outp ?wr), compression = compression_percent so si,
             exists = False, outputFile = outp\<rparr>"
  have m: "files (os ?wr) outp = Some so" "os ?wr = s1"
    using assms(3) by (simp_all add: measured_world_def)
  have "resCh (job_after (execute enc cfg (newJob p q) w)) = [Send ?v, Close] \<and>
           panicked (execute enc cfg (newJob p q) w) = None \<and>
           os ?wr = s1 \<and> err ?v = fst (os_Remove outp ?wr) \<and>
           world_after (execute enc cfg (newJob p q) w) = snd (os_Remove outp ?wr) \<and>
           (if undeletable s1 outp
            then err ?v = Some (RemoveDenied outp) \<and>
                 os (world_after (execute enc cfg (newJob p q) w)) = s1
            else err ?v = None \<and>
                 files (os (world_after (execute enc cfg (newJob p q) w))) outp = None)"
    using body_output_removed [where enc = enc and q = q, OF assms] os_Remove_present [OF m(1)] m(2)
    by (simp add: execute_def Let_def newJob_def)
  then show ?thesis by blast
qed

theorem oversized_output_is_removed_witness:
  "reaches_encoder default_config ''/pics/cat.jpg'' (fresh_world pics_os)
     ''/pics/cat.jpg'' ''/pics/cat.webp'' 51200 \<and>
   encoder_writing 61440 80 ''/pics/cat.jpg'' ''/pics/cat.webp'' (os (fresh_world pics_os)) =
     (None, oversize_os) \<and>
   files oversize_os ''/pics/cat.webp'' = Some 61440 \<and> (51200 :: 64 word) < 61440 \<and>
   (\<exists>v. resCh (job_after (execute (encoder_writing 61440) default_config
        (newJob ''/pics/cat.jpg'' 80) (fresh_world pics_os))) = [Send v, Close] \<and>
      err v = None) \<and>
   files (os (world_after (execute (encoder_writing 61440) default_config
        (newJob ''/pics/cat.jpg'' 80) (fresh_world pics_os)))) ''/pics/cat.webp'' = None"
proof -
  have h2: "encoder_writing 61440 80 ''/pics/cat.jpg'' ''/pics/cat.webp'' (os (fresh_world pics_os)) =
     (None, oversize_os)"
    by (simp add: encoder_writing_def fresh_world_def oversize_os_def)
  have h3: "files oversize_os ''/pics/cat.webp'' = Some 61440"
    by (simp add: oversize_os_def)
  have h4: "(51200 :: 64 word) < 61440" by simp
  have u: "\<not> undeletable oversize_os ''/pics/cat.webp''"
    by (simp add: oversize_os_def pics_os_def)
  show ?thesis
    using oversized_output_is_removed [where enc = "encoder_writing 61440" and q = 80,
        OF reaches_encoder_cat h2 h3 h4] reaches_encoder_cat h2 h3 h4 u
    by auto
qed

text \<open>
  C4. When \<^verbatim>\<open>replace\<close> is false and a file exists at the derived output path, the job's
  result has \<open>exists\<close> true, no error and the zero compression of a result that was never
  computed; \<^verbatim>\<open>execute\<close> returns without a panic, the system's state is the one it
  started from, and the only call made after the path was resolved is the
  \<^verbatim>\<open>os.Stat\<close> of the output path: the input's size is not read, the encoder is not
  run, nothing is removed.
\<close>

theorem existence_gate_stops:
  assumes "\<not> replace cfg" and "fst (Abs p w) = Inr a" and "output_path cfg a = Some outp"
    and "files (os w) outp = Some sz"
  shows "resCh (job_after (execute enc cfg (newJob p q) w)) =
           [Send \<lparr>err = None, compression = Finite 0, exists = True, outputFile = outp\<rparr>, Close] \<and>
         panicked (execute enc cfg (newJob p q) w) = None \<and>
         os (world_after (execute enc cfg (newJob p q) w)) = os w \<and>
         trace (world_after (execute enc cfg (newJob p q) w)) = trace (snd (Abs p w)) @ [Stat outp]"
  using body_exists [OF assms(2,3,1,4)] Abs_os [of p w]
  by (simp add: execute_def Let_def newJob_def)

theorem existence_gate_stops_witness:
  "\<not> replace default_config \<and>
   fst (Abs ''/pics/cat.jpg'' (fresh_world converted_os)) = Inr ''/pics/cat.jpg'' \<and>
   output_path default_config ''/pics/cat.jpg'' = Some ''/pics/cat.webp'' \<and>
   files (os (fresh_world converted_os)) ''/pics/cat.webp'' = Some 20480 \<and>
   resCh (job_after (execute (encoder_writing 30000) default_config (newJob ''/pics/cat.jpg'' 80)
       (fresh_world converted_os))) =
     [Send \<lparr>err = None, compression = Finite 0, exists = True, outputFile = ''/pics/cat.webp''\<rparr>, Close] \<and>
   trace (world_after (execute (encoder_writing 30000) default_config (newJob ''/pics/cat.jpg'' 80)
       (fresh_world converted_os))) = [Stat ''/pics/cat.webp'']"
proof -
  have h1: "\<not> replace default_config" by (simp add: default_config_def)
  have h2: "fst (Abs ''/pics/cat.jpg'' (fresh_world converted_os)) = Inr ''/pics/cat.jpg''"
    by (simp add: Abs_cat)
  have h3: "files (os (fresh_world converted_os)) ''/pics/cat.webp'' = Some 20480"
    by (simp add: fresh_world_def converted_os_def)
  show ?thesis
    using existence_gate_stops [OF h1 h2 output_path_cat h3, of "encoder_writing 30000" 80] h1 h2 h3
    by (simp add: output_path_cat Abs_cat fresh_world_def)
qed

text \<open>
  C5. For every input path that resolves to an absolute path \<open>a\<close>, the output path in
  the job's result is \<^verbatim>\<open>Join\<close> of the directory of \<open>a\<close> with the prefix, the base
  name of \<open>a\<close> without its extension, the suffix and \<^verbatim>\<open>.webp\<close>. It is the value of
  \<open>output_path\<close>, a function of the configuration and \<open>a\<close> alone, so the encoder, the
  quality and the state of the system have no part in it and repeating the derivation
  gives the same path; resolving the path leaves the system's state as it was.
\<close>

theorem output_path_derivation:
  assumes "fst (Abs p w) = Inr a"
  shows "\<exists>stem v. Base a = stem @ Ext a \<and>
           resCh (job_after (execute enc cfg (newJob p q) w)) = [Send v, Close] \<and>
           outputFile v = Join (Dir a) (prependToName cfg @ stem @ appendToName cfg @ ''.webp'') \<and>
           output_path cfg a = Some (outputFile v) \<and>
           os (snd (Abs p w)) = os w"
proof -
  obtain stem where s: "Base a = stem @ Ext a" using Base_Ext by blast
  then have t: "take (length (Base a) - length (Ext a)) (Base a) = stem" by simp
  let ?outp = "Join (Dir a) (prependToName cfg @ stem @ appendToName cfg @ ''.webp'')"
  have o: "output_path cfg a = Some ?outp" using output_path_eq [of cfg a] t by simp
  let ?v = "r (execute_body enc cfg (newJob p q) w)"
  have f: "outputFile ?v = ?outp"
    using body_outputFile [OF assms o] .
  have "Base a = stem @ Ext a \<and>
      resCh (job_after (execute enc cfg (newJob p q) w)) = [Send ?v, Close] \<and>
      outputFile ?v = ?outp \<and> output_path cfg a = Some (outputFile ?v) \<and>
      os (snd (Abs p w)) = os w"
    using s o f execute_resCh [of enc cfg p q w] Abs_os [of p w] by simp
  then show ?thesis by blast
qed

theorem output_path_derivation_witness:
  "fst (Abs ''cat.jpg'' (fresh_world pics_os)) = Inr ''/pics/cat.jpg'' \<and>
   (\<exists>stem v. Base ''/pics/cat.jpg'' = stem @ Ext ''/pics/cat.jpg'' \<and>
      resCh (job_after (execute (encoder_writing 20480) default_config (newJob ''cat.jpg'' 80)
        (fresh_world pics_os))) = [Send v, Close] \<and>
      outputFile v = Join (Dir ''/pics/cat.jpg'')
        (prependToName default_config @ stem @ appendToName default_config @ ''.webp'') \<and>
      outputFile v = ''/pics/cat.webp'' \<and>
      os (snd (Abs ''cat.jpg'' (fresh_world pics_os))) = os (fresh_world pics_os))"
proof -
  have h: "fst (Abs ''cat.jpg'' (fresh_world pics_os)) = Inr ''/pics/cat.jpg''"
    by (simp add: Abs_def IsAbs_def os_Getwd_def fresh_world_def pics_os_def Join_def Clean_def
        Separator_def)
  from output_path_derivation [OF h, of "encoder_writing 20480" default_config 80]
  obtain stem v where
    d: "Base ''/pics/cat.jpg'' = stem @ Ext ''/pics/cat.jpg''"
      "resCh (job_after (execute (encoder_writing 20480) default_config (newJob ''cat.jpg'' 80)
        (fresh_world pics_os))) = [Send v, Close]"
      "outputFile v = Join (Dir ''/pics/cat.jpg'')
        (prependToName default_config @ stem @ appendToName default_config @ ''.webp'')"
      "output_path default_config ''/pics/cat.jpg'' = Some (outputFile v)"
      "os (snd (Abs ''cat.jpg'' (fresh_world pics_os))) = os (fresh_world pics_os)"
    by blast
  have "outputFile v = ''/pics/cat.webp''" using d(4) by (simp add: output_path_cat)
  then show ?thesis using h d by blast
qed

text \<open>
  C6. A job that has passed the existence gate and whose input is smaller than the
  configured minimum stops there: its result has no error (and neither \<open>exists\<close> nor a
  compression), \<^verbatim>\<open>execute\<close> returns without a panic, the system's state is the one
  it started from, so no output file has been created, and neither the encoder nor a
  removal has been called.
\<close>

theorem minimum_size_gate_stops:
  assumes "fst (Abs p w) = Inr a" and "output_path cfg a = Some outp"
    and "replace cfg \<or> files (os w) outp = None"
    and "files (os w) a = Some sz" and "sz < minFileSize cfg"
  shows "resCh (job_after (execute enc cfg (newJob p q) w)) =
           [Send \<lparr>err = None, compression = Finite 0, exists = False, outputFile = outp\<rparr>, Close] \<and>
         panicked (execute enc cfg (newJob p q) w) = None \<and>
         os (world_after (execute enc cfg (newJob p q) w)) = os w \<and>
         filter mutates (trace (world_after (execute enc cfg (newJob p q) w))) =
           filter mutates (trace w)"
proof -
  let ?g = "gate_world cfg outp (snd (Abs p w))"
  have g: "files (os ?g) a = Some sz"
    using assms(4) Abs_os [of p w] by (simp add: gate_world_os)
  have "execute_body enc cfg (newJob p q) w =
      \<lparr>r = \<lparr>err = None, compression = Finite 0, exists = False, outputFile = outp\<rparr>,
       panic = None, j_input = a, wld = ?g\<lparr>trace := trace ?g @ [Stat a]\<rparr>\<rparr>"
    using body_convert [OF assms(1-3)] convert_small [OF g assms(5)] by simp
  then show ?thesis
    using Abs_os [of p w] Abs_mutates [of p w]
    by (simp add: execute_def Let_def newJob_def gate_world_os gate_world_mutates)
qed

theorem minimum_size_gate_stops_witness:
  "fst (Abs ''/pics/cat.jpg'' (fresh_world small_os)) = Inr ''/pics/cat.jpg'' \<and>
   output_path default_config ''/pics/cat.jpg'' = Some ''/pics/cat.webp'' \<and>
   files (os (fresh_world small_os)) ''/pics/cat.webp'' = None \<and>
   files (os (fresh_world small_os)) ''/pics/cat.jpg'' = Some 5120 \<and>
   (5120 :: 64 word) < minFileSize default_config \<and>
   resCh (job_after (execute (encoder_writing 2048) default_config (newJob ''/pics/cat.jpg'' 80)
       (fresh_world small_os))) =
     [Send \<lparr>err = None, compression = Finite 0, exists = False, outputFile = ''/pics/cat.webp''\<rparr>, Close] \<and>
   os (world_after (execute (encoder_writing 2048) default_config (newJob ''/pics/cat.jpg'' 80)
       (fresh_world small_os))) = small_os"
proof -
  have h1: "fst (Abs ''/pics/cat.jpg'' (fresh_world small_os)) = Inr ''/pics/cat.jpg''"
    by (simp add: Abs_cat)
  have h3: "replace default_config \<or> files (os (fresh_world small_os)) ''/pics/cat.webp'' = None"
    by (simp add: fresh_world_def small_os_def)
  have h4: "files (os (fresh_world small_os)) ''/pics/cat.jpg'' = Some 5120"
    by (simp add: fresh_world_def small_os_def)
  have h5: "(5120 :: 64 word) < minFileSize default_config"
    by (simp add: default_config_def)
  show ?thesis
    using minimum_size_gate_stops [OF h1 output_path_cat h3 h4 h5, of "encoder_writing 2048" 80]
      h1 h4 h5
    by (simp add: output_path_cat fresh_world_def small_os_def)
qed






text \<open>
  C9. In every state that a schedule of events reaches from a new pool: once \<^verbatim>\<open>stop\<close>
  has been called the context is cancelled, which every worker's \<^verbatim>\<open>select\<close> reads;
  \<^verbatim>\<open>stop\<close> has returned only when every worker goroutine has returned; every job
  delivered has exactly one result on its channel, followed by the close; each job
  started is either delivered or still inside \<^verbatim>\<open>execute\<close>, so when \<^verbatim>\<open>stop\<close> has
  returned every started job has been delivered; and no event, the call of \<^verbatim>\<open>stop\<close>
  and the cancellation included, takes a job out of \<^verbatim>\<open>execute\<close> other than the end of
  that \<^verbatim>\<open>execute\<close>, which delivers the job.
\<close>

theorem stop_returns_after_every_worker:
  assumes "run_events enc cfg evs (newPool n w) = Some s"
  shows "(caller s = InStop \<or> caller s = StopReturned \<longrightarrow> ctx_done s) \<and>
         (caller s = StopReturned \<longrightarrow> (\<forall>g\<in>set (goroutines s). g = Returned)) \<and>
         (\<forall>j\<in>set (delivered s). \<exists>v. resCh j = [Send v, Close]) \<and>
         length (started s) = length (delivered s) + length (filter in_flight (goroutines s)) \<and>
         (caller s = StopReturned \<longrightarrow> length (delivered s) = length (started s)) \<and>
         (\<forall>i j ev s'. goroutine_at s i = Some (InExecute j) \<and> fire enc cfg ev s = Some s' \<longrightarrow>
            goroutine_at s' i = Some (InExecute j) \<or>
            (ev = Execute i \<and> goroutine_at s' i \<noteq> Some (InExecute j) \<and>
             delivered s' = delivered s @ [job_after (execute enc cfg j (sys s))]))"
proof -
  have inv: "pool_inv s" using run_events_inv [OF newPool_inv assms] .
  have c1: "caller s = InStop \<or> caller s = StopReturned \<longrightarrow> ctx_done s"
    using inv by (simp add: pool_inv_def)
  have ret: "\<forall>g\<in>set (goroutines s). g = Returned" if "caller s = StopReturned"
  proof -
    from inv have "wg s = int (length (filter live (goroutines s)))"
      and "caller s = StopReturned \<longrightarrow> wg s = 0"
      unfolding pool_inv_def by blast+
    then have "length (filter live (goroutines s)) = 0" using that by simp
    then show ?thesis by (rule no_live_all_returned)
  qed
  have c3: "\<forall>j\<in>set (delivered s). \<exists>v. resCh j = [Send v, Close]"
    using inv by (auto simp add: pool_inv_def)
  have c4: "length (started s) = length (delivered s) + length (filter in_flight (goroutines s))"
    using inv by (simp add: pool_inv_def)
  have c5: "length (delivered s) = length (started s)" if "caller s = StopReturned"
  proof -
    have "\<forall>g\<in>set (goroutines s). \<not> in_flight g" using ret [OF that] by auto
    then have "filter in_flight (goroutines s) = []" by (simp add: filter_empty_conv)
    then show ?thesis using c4 by simp
  qed
  have c6: "\<forall>i j ev s'. goroutine_at s i = Some (InExecute j) \<and> fire enc cfg ev s = Some s' \<longrightarrow>
            goroutine_at s' i = Some (InExecute j) \<or>
            (ev = Execute i \<and> goroutine_at s' i \<noteq> Some (InExecute j) \<and>
             delivered s' = delivered s @ [job_after (execute enc cfg j (sys s))])"
    using fire_in_flight by blast
  show ?thesis using c1 ret c3 c4 c5 c6 by blast
qed

theorem stop_returns_after_every_worker_witness:
  "\<exists>s. run_events (encoder_writing 25600) default_config
          [Submit 0 ''/pics/cat.jpg'' 80, CallStop, Execute 0, DoneEarly 0, StopReturns]
          (newPool 1 (fresh_world pics_os)) = Some s \<and>
        caller s = StopReturned \<and> ctx_done s \<and>
        (\<forall>g\<in>set (goroutines s). g = Returned) \<and>
        length (started s) = 1 \<and> length (delivered s) = 1"
proof -
  have "\<exists>s. run_events (encoder_writing 25600) default_config
          [Submit 0 ''/pics/cat.jpg'' 80, CallStop, Execute 0, DoneEarly 0, StopReturns]
          (newPool 1 (fresh_world pics_os)) = Some s \<and>
        caller s = StopReturned \<and> length (started s) = 1"
    by (simp add: newPool_def goroutine_at_def execute_cat_returns Let_def)
  then obtain s where r: "run_events (encoder_writing 25600) default_config
          [Submit 0 ''/pics/cat.jpg'' 80, CallStop, Execute 0, DoneEarly 0, StopReturns]
          (newPool 1 (fresh_world pics_os)) = Some s"
    and c: "caller s = StopReturned" "length (started s) = 1"
    by blast
  note t = stop_returns_after_every_worker [OF r]
  have t1: "ctx_done s" using conjunct1 [OF t] c(1) by simp
  have t2: "\<forall>g\<in>set (goroutines s). g = Returned"
    using conjunct1 [OF conjunct2 [OF t]] c(1) by simp
  have t5: "length (delivered s) = 1"
    using conjunct1 [OF conjunct2 [OF conjunct2 [OF conjunct2 [OF conjunct2 [OF t]]]]] c by simp
  show ?thesis using r c t1 t2 t5 by blast
qed




end
